theory Spec2Isabelle
  imports Main "HOL-Library.Char_ord" "HOL-Library.List_Lexorder"
begin

section \<open>The spiral traversal (\<open>fetch_map\<close> of osm20.py)\<close>

text \<open>
  Python integers are modelled as \<open>int\<close>, a grid position as a pair of them.
  Exceptions are values of \<open>py_error\<close>.
\<close>

type_synonym position = "int \<times> int"

datatype py_error = ValueError | IndexError | UnboundLocalError

text \<open>
  The browser is an external collaborator. What \<open>fetch_map\<close> asks of it is recorded
  as a trace of events: \<open>Pan (dx, dy) distance\<close> for each call of
  \<open>pan_with_mouse\<close>, \<open>Screenshot (x, y)\<close> for each \<open>take_screenshot\<close> followed by
  \<open>crop_image\<close>, and \<open>Skipped (x, y)\<close> for the branch that only prints that the
  position has already been taken.
\<close>

datatype event = Pan "int \<times> int" int | Screenshot position | Skipped position

text \<open>
  The dictionary \<open>directions = dict(up=(0, -1), right=(1, 0), down=(0, 1), left=(-1, 0))\<close>
  has four fixed keys: it is a total function on the key type, and
  \<open>directions.values()\<close> lists its values in insertion order.
\<close>

datatype direction_name = Up | Right | Down | Left

fun directions :: "direction_name \<Rightarrow> int \<times> int" where
  "directions Up = (0, -1)"
| "directions Right = (1, 0)"
| "directions Down = (0, 1)"
| "directions Left = (-1, 0)"

definition directions_values :: "(int \<times> int) list" where
  "directions_values = map directions [Up, Right, Down, Left]"

text \<open>
  The local variables of \<open>fetch_map\<close> that change during the walk. The variable
  \<open>cropped_image_size\<close> is unbound (\<open>None\<close>) until the first capture assigns it.
\<close>

record walk =
  at_x :: int
  at_y :: int
  seen_positions :: "position set"
  cropped_image_size :: "(int \<times> int) option"
  trace :: "event list"

definition start :: walk where
  "start = \<lparr>at_x = 0, at_y = 0, seen_positions = {}, cropped_image_size = None, trace = []\<rparr>"

definition pan_with_mouse :: "int \<times> int \<Rightarrow> int \<Rightarrow> walk \<Rightarrow> walk" where
  "pan_with_mouse d movement_pixels w = w\<lparr>trace := trace w @ [Pan d movement_pixels]\<rparr>"

text \<open>
  The body of the innermost loop (lines 341 to 360). The parameter \<open>crop\<close> gives the
  size that \<open>crop_image\<close> returns for the screenshot taken at a position.
\<close>

definition sub_step :: "(position \<Rightarrow> int \<times> int) \<Rightarrow> int \<Rightarrow> int \<times> int \<Rightarrow> walk \<Rightarrow> walk" where
  "sub_step crop movement_pixels d w =
     (let p = (at_x w, at_y w);
          w1 = (if p \<notin> seen_positions w
                then w\<lparr>trace := trace w @ [Screenshot p], cropped_image_size := Some (crop p)\<rparr>
                else w\<lparr>trace := trace w @ [Skipped p]\<rparr>);
          w2 = pan_with_mouse d movement_pixels w1;
          w3 = w2\<lparr>seen_positions := insert p (seen_positions w2)\<rparr>
      in w3\<lparr>at_x := at_x w3 + fst d, at_y := at_y w3 + snd d\<rparr>)"

text \<open>\<open>for sub_step in range(step)\<close>, for one direction.\<close>

definition leg :: "(position \<Rightarrow> int \<times> int) \<Rightarrow> int \<Rightarrow> nat \<Rightarrow> int \<times> int \<Rightarrow> walk \<Rightarrow> walk" where
  "leg crop movement_pixels step d w = fold (\<lambda>_. sub_step crop movement_pixels d) [0..<step] w"

text \<open>\<open>for dx, dy in directions.values()\<close>, for one value of \<open>step\<close>.\<close>

definition ring :: "(position \<Rightarrow> int \<times> int) \<Rightarrow> int \<Rightarrow> nat \<Rightarrow> walk \<Rightarrow> walk" where
  "ring crop movement_pixels step w = fold (leg crop movement_pixels step) directions_values w"

text \<open>\<open>for step in range(1, steps + 1)\<close>.\<close>

definition rings :: "(position \<Rightarrow> int \<times> int) \<Rightarrow> int \<Rightarrow> nat \<Rightarrow> walk \<Rightarrow> walk" where
  "rings crop movement_pixels steps w = fold (ring crop movement_pixels) [1..<Suc steps] w"

text \<open>
  The loop of lines 326 to 334: \<open>steps\<close> times, a pan down and a pan right, each of
  \<open>movement_pixels // 2\<close>. It changes neither \<open>x\<close>, \<open>y\<close> nor \<open>seen_positions\<close>.
\<close>

definition centering :: "int \<Rightarrow> nat \<Rightarrow> walk \<Rightarrow> walk" where
  "centering movement_pixels steps w =
     fold (\<lambda>_ w'. pan_with_mouse (directions Right) (movement_pixels div 2)
                    (pan_with_mouse (directions Down) (movement_pixels div 2) w'))
          [0..<steps] w"

text \<open>
  \<open>fetch_map\<close>: \<open>range(steps)\<close> and \<open>range(1, steps + 1)\<close> are empty for
  \<open>steps \<le> 0\<close>, so the loops run over \<open>nat steps\<close>. The final
  \<open>return cropped_image_size\<close> raises \<open>UnboundLocalError\<close> when no capture has
  assigned the variable. The result is the trace of what was asked of the browser,
  and the returned value or the exception.
\<close>

definition fetch_map_walk :: "(position \<Rightarrow> int \<times> int) \<Rightarrow> int \<Rightarrow> int \<Rightarrow> walk" where
  "fetch_map_walk crop movement_pixels steps =
     rings crop movement_pixels (nat steps) (centering movement_pixels (nat steps) start)"

definition fetch_map :: "(position \<Rightarrow> int \<times> int) \<Rightarrow> int \<Rightarrow> int \<Rightarrow> event list \<times> (py_error + int \<times> int)" where
  "fetch_map crop movement_pixels steps =
     (let w = fetch_map_walk crop movement_pixels steps
      in (trace w, case cropped_image_size w of
                     None \<Rightarrow> Inl UnboundLocalError
                   | Some s \<Rightarrow> Inr s))"

text \<open>Projections of a trace.\<close>

fun pan_events :: "event list \<Rightarrow> ((int \<times> int) \<times> int) list" where
  "pan_events [] = []"
| "pan_events (Pan d m # es) = (d, m) # pan_events es"
| "pan_events (_ # es) = pan_events es"

fun screenshots :: "event list \<Rightarrow> position list" where
  "screenshots [] = []"
| "screenshots (Screenshot p # es) = p # screenshots es"
| "screenshots (_ # es) = screenshots es"

fun visited :: "event list \<Rightarrow> position list" where
  "visited [] = []"
| "visited (Screenshot p # es) = p # visited es"
| "visited (Skipped p # es) = p # visited es"
| "visited (_ # es) = visited es"

text \<open>
  The pans of the ring loops, as the loop nest emits them: for \<open>step = 1, \<dots>, n\<close>, for
  each direction in turn, \<open>step\<close> pans of the full distance.
\<close>

definition ring_pans :: "int \<Rightarrow> nat \<Rightarrow> ((int \<times> int) \<times> int) list" where
  "ring_pans m n =
     concat (map (\<lambda>k. concat (map (\<lambda>d. replicate k (d, m)) directions_values)) [1..<Suc n])"

text \<open>
  The cells of the square with corners \<open>(0, 0)\<close> and \<open>(n, -n)\<close>, and the cells from
  which ring \<open>k\<close> pans when it starts at the origin: \<open>k\<close> cells up the left side,
  \<open>k\<close> along the top, \<open>k\<close> down the right side and \<open>k\<close> back along the bottom.
\<close>

definition square :: "nat \<Rightarrow> position set" where
  "square n = {(x, y). 0 \<le> x \<and> x \<le> int n \<and> - int n \<le> y \<and> y \<le> 0}"

definition ring_cells :: "nat \<Rightarrow> position set" where
  "ring_cells k =
     {(x, y). x = 0 \<and> - int k < y \<and> y \<le> 0} \<union>
     {(x, y). 0 \<le> x \<and> x < int k \<and> y = - int k} \<union>
     {(x, y). x = int k \<and> - int k \<le> y \<and> y < 0} \<union>
     {(x, y). 0 < x \<and> x \<le> int k \<and> y = 0}"

text \<open>
  The invariant of the walk: the screenshots taken so far are at distinct positions,
  these are exactly the positions in \<open>seen_positions\<close> and exactly the positions
  the loop body has run at, and \<open>cropped_image_size\<close> is bound once a position has
  been seen.
\<close>

definition consistent :: "walk \<Rightarrow> bool" where
  "consistent w \<longleftrightarrow>
     distinct (screenshots (trace w)) \<and>
     set (screenshots (trace w)) = seen_positions w \<and>
     set (visited (trace w)) = seen_positions w \<and>
     (seen_positions w = {} \<or> cropped_image_size w \<noteq> None)"


section \<open>The assembler (\<open>assemble_image_details\<close> of osm20.py and of osm19.py)\<close>

subsection \<open>The string operations it uses\<close>

text \<open>
  A file name is a \<open>string\<close>, one \<open>char\<close> per code point, so the model covers
  names made of code points below 256. \<open>py_endswith\<close> is \<open>str.endswith\<close>,
  \<open>py_replace\<close> is \<open>str.replace\<close> for a non-empty pattern (all occurrences, left
  to right, without overlap), \<open>py_split\<close> is \<open>str.split\<close> with a separator of one
  character, and \<open>py_index\<close> is the subscript \<open>parts[i]\<close> for a literal \<open>i \<ge> 0\<close>,
  which raises \<open>IndexError\<close> out of range.
\<close>

definition py_endswith :: "string \<Rightarrow> string \<Rightarrow> bool" where
  "py_endswith s suffix \<longleftrightarrow>
     length suffix \<le> length s \<and> drop (length s - length suffix) s = suffix"

fun py_replace :: "string \<Rightarrow> string \<Rightarrow> string \<Rightarrow> string" where
  "py_replace old new [] = []"
| "py_replace old new (c # cs) =
     (if old \<noteq> [] \<and> take (length old) (c # cs) = old
      then new @ py_replace old new (drop (length old - 1) cs)
      else c # py_replace old new cs)"

fun py_split :: "char \<Rightarrow> string \<Rightarrow> string list" where
  "py_split sep [] = [[]]"
| "py_split sep (c # cs) =
     (if c = sep then [] # py_split sep cs
      else (case py_split sep cs of
              [] \<Rightarrow> [[c]]
            | part # parts \<Rightarrow> (c # part) # parts))"

definition py_index :: "'a list \<Rightarrow> nat \<Rightarrow> py_error + 'a" where
  "py_index xs i = (if i < length xs then Inr (xs ! i) else Inl IndexError)"

text \<open>
  \<open>py_int\<close> is \<open>int(s)\<close> for a string: white space is stripped at both ends, one
  sign is allowed, and what remains must be groups of decimal digits separated by
  single underscores; anything else raises \<open>ValueError\<close>. Below code point 256 the
  decimal digits are \<open>0\<close> to \<open>9\<close>, and the white space that \<open>int\<close> strips is
  the eight code points listed: tab to carriage return, the space, and the two
  non-ASCII spaces 133 and 160. The separators 28 to 31 are not stripped: a string
  that begins or ends with one of them raises \<open>ValueError\<close>. The limit that recent
  interpreters put on the number of digits is not modelled.
\<close>

definition whitespace :: "char \<Rightarrow> bool" where
  "whitespace c \<longleftrightarrow> (of_char c :: nat) \<in> {9, 10, 11, 12, 13, 32, 133, 160}"

definition digit :: "char \<Rightarrow> bool" where
  "digit c \<longleftrightarrow> CHR ''0'' \<le> c \<and> c \<le> CHR ''9''"

definition py_strip :: "string \<Rightarrow> string" where
  "py_strip s = rev (dropWhile whitespace (rev (dropWhile whitespace s)))"

fun digit_groups :: "string \<Rightarrow> bool" where
  "digit_groups [] = False"
| "digit_groups [c] = digit c"
| "digit_groups (c # d # cs) =
     (digit c \<and> (if d = CHR ''_'' then digit_groups cs else digit_groups (d # cs)))"

definition decimal :: "string \<Rightarrow> int" where
  "decimal s = foldl (\<lambda>n c. 10 * n + (of_char c - 48)) 0 (filter digit s)"

definition py_int :: "string \<Rightarrow> py_error + int" where
  "py_int s =
     (let t = py_strip s;
          (sign, body) = (case t of
                            c # r \<Rightarrow> if c = CHR ''-'' then (- 1, r)
                                     else if c = CHR ''+'' then (1, r) else (1, t)
                          | [] \<Rightarrow> (1, t))
      in if digit_groups body then Inr (sign * decimal body) else Inl ValueError)"

subsection \<open>Collecting the tiles\<close>

text \<open>
  The body of the \<open>try\<close> block: \<open>parts = filename.replace(".png", "").split("_")\<close>
  and \<open>x, y = int(parts[i]), int(parts[j])\<close>, evaluated left to right. osm20.py
  reads the fields 1 and 2 (names \<open>screenshot_x_y.png\<close>), osm19.py the fields 2 and 3
  (names \<open>screenshot_#i_x_y.png\<close>).
\<close>

definition parse_fields :: "nat \<Rightarrow> nat \<Rightarrow> string \<Rightarrow> py_error + position" where
  "parse_fields i j filename =
     (let parts = py_split CHR ''_'' (py_replace ''.png'' [] filename)
      in case py_index parts i of
           Inl e \<Rightarrow> Inl e
         | Inr first \<Rightarrow>
             (case py_int first of
                Inl e \<Rightarrow> Inl e
              | Inr x \<Rightarrow>
                  (case py_index parts j of
                     Inl e \<Rightarrow> Inl e
                   | Inr second \<Rightarrow>
                       (case py_int second of
                          Inl e \<Rightarrow> Inl e
                        | Inr y \<Rightarrow> Inr (x, y)))))"

definition parse_position :: "string \<Rightarrow> py_error + position" where
  "parse_position = parse_fields 1 2"

definition parse_position_osm19 :: "string \<Rightarrow> py_error + position" where
  "parse_position_osm19 = parse_fields 2 3"

text \<open>
  Of what the function prints, the model keeps the two messages the claims are about:
  \<open>Skipping invalid filename format during assembly\<close> and
  \<open>No valid images found for assembly. Exiting.\<close>
\<close>

datatype message = Skipping_invalid_filename string | No_valid_images

record collected =
  images :: "string list"
  positions :: "position list"
  printed :: "message list"

text \<open>
  The loop over \<open>cropped_files\<close>. Only \<open>ValueError\<close> is caught by the
  \<open>except\<close> clause; any other exception leaves the function. An image is
  identified by the name of its file in the directory.
\<close>

fun collect :: "(string \<Rightarrow> py_error + position) \<Rightarrow> string list \<Rightarrow> collected \<Rightarrow> py_error + collected" where
  "collect parse [] c = Inr c"
| "collect parse (filename # rest) c =
     (if py_endswith filename ''.png''
      then (case parse filename of
              Inr position \<Rightarrow>
                collect parse rest
                  (c\<lparr>images := images c @ [filename], positions := positions c @ [position]\<rparr>)
            | Inl ValueError \<Rightarrow>
                collect parse rest
                  (c\<lparr>printed := printed c @ [Skipping_invalid_filename filename]\<rparr>)
            | Inl e \<Rightarrow> Inl e)
      else collect parse rest c)"

subsection \<open>Pasting\<close>

text \<open>
  The canvas records the size it was created with and the calls of
  \<open>assembled_image.paste(image, (x_offset, y_offset))\<close> made on it, each with the
  image, the size of the image and the offset. The name of the saved file is kept as
  the values the format string puts into it. The result of a run is what it printed,
  the canvas if one was created, and the file if one was saved.
\<close>

record paste_call =
  img :: string
  img_size :: "int \<times> int"
  box :: "int \<times> int"

record canvas =
  canvas_size :: "int \<times> int"
  pastes :: "paste_call list"

record output_filename =
  base_filename :: string
  name_steps :: int
  name_zoom :: int
  name_size :: "int \<times> int"

record outcome =
  messages :: "message list"
  assembled_image :: "canvas option"
  saved :: "output_filename option"

text \<open>
  The body of the paste loop, in osm20.py (lines 465 to 472) and in osm19.py (lines 214
  to 224, where the two halves are taken from the other dimension). The parameter
  \<open>size_of\<close> gives \<open>Image.open(img).size\<close>.
\<close>

definition paste_tile ::
  "(string \<Rightarrow> int \<times> int) \<Rightarrow> int \<Rightarrow> int \<Rightarrow> int \<Rightarrow> string \<times> position \<Rightarrow> canvas \<Rightarrow> canvas" where
  "paste_tile size_of movement_pixels center_x center_y tile assembled =
     (let (image, pos) = tile;
          (width, height) = size_of image;
          (x, y) = pos;
          x_offset = center_x - (x * movement_pixels) - (width div 2);
          y_offset = center_y - (y * movement_pixels) - (height div 2)
      in assembled\<lparr>pastes := pastes assembled @
           [\<lparr>img = image, img_size = (width, height), box = (x_offset, y_offset)\<rparr>]\<rparr>)"

definition paste_tile_osm19 ::
  "(string \<Rightarrow> int \<times> int) \<Rightarrow> int \<Rightarrow> int \<Rightarrow> int \<Rightarrow> string \<times> position \<Rightarrow> canvas \<Rightarrow> canvas" where
  "paste_tile_osm19 size_of movement_pixels center_x center_y tile assembled =
     (let (image, pos) = tile;
          (width, height) = size_of image;
          (x, y) = pos;
          x_offset = center_x - (x * movement_pixels) - (height div 2);
          y_offset = center_y - (y * movement_pixels) - (width div 2)
      in assembled\<lparr>pastes := pastes assembled @
           [\<lparr>img = image, img_size = (width, height), box = (x_offset, y_offset)\<rparr>]\<rparr>)"

text \<open>
  \<open>assemble_image_details\<close>: \<open>listdir\<close> is \<open>os.listdir(cropped_dir)\<close>, sorted
  as Python sorts strings. osm20.py adds 6000 to each side of the canvas, osm19.py adds
  nothing. The parameter \<open>black\<close> of osm19.py, which that function does not use, is
  left out, and the parameter \<open>cropped_image_size\<close> is written \<open>cropped_size\<close>.
\<close>

definition assemble_image_details ::
  "string list \<Rightarrow> (string \<Rightarrow> int \<times> int) \<Rightarrow> string \<Rightarrow> int \<Rightarrow> int \<times> int \<Rightarrow> int \<Rightarrow> int
     \<Rightarrow> py_error + outcome" where
  "assemble_image_details listdir size_of output_base_filename movement_pixels
       cropped_size zoom_level steps =
     (case collect parse_position (sort listdir) \<lparr>images = [], positions = [], printed = []\<rparr> of
        Inl e \<Rightarrow> Inl e
      | Inr c \<Rightarrow>
          if positions c = []
          then Inr \<lparr>messages = printed c @ [No_valid_images], assembled_image = None, saved = None\<rparr>
          else
            (let (width, height) = cropped_size;
                 assembled_image_size_x = width + (movement_pixels * steps * 2) + 6000;
                 assembled_image_size_y = height + (movement_pixels * steps * 2) + 6000;
                 center_x = assembled_image_size_x div 2;
                 center_y = assembled_image_size_y div 2;
                 assembled = fold (paste_tile size_of movement_pixels center_x center_y)
                               (zip (images c) (positions c))
                               \<lparr>canvas_size = (assembled_image_size_x, assembled_image_size_y),
                                  pastes = []\<rparr>
             in Inr \<lparr>messages = printed c, assembled_image = Some assembled,
                      saved = Some \<lparr>base_filename = output_base_filename, name_steps = steps,
                                     name_zoom = zoom_level,
                                     name_size = canvas_size assembled\<rparr>\<rparr>))"

definition assemble_image_details_osm19 ::
  "string list \<Rightarrow> (string \<Rightarrow> int \<times> int) \<Rightarrow> string \<Rightarrow> int \<Rightarrow> int \<times> int \<Rightarrow> int \<Rightarrow> int
     \<Rightarrow> py_error + outcome" where
  "assemble_image_details_osm19 listdir size_of output_base_filename movement_pixels
       cropped_size zoom_level steps =
     (case collect parse_position_osm19 (sort listdir) \<lparr>images = [], positions = [], printed = []\<rparr> of
        Inl e \<Rightarrow> Inl e
      | Inr c \<Rightarrow>
          if positions c = []
          then Inr \<lparr>messages = printed c @ [No_valid_images], assembled_image = None, saved = None\<rparr>
          else
            (let (width, height) = cropped_size;
                 assembled_image_size_x = width + (movement_pixels * steps * 2);
                 assembled_image_size_y = height + (movement_pixels * steps * 2);
                 center_x = assembled_image_size_x div 2;
                 center_y = assembled_image_size_y div 2;
                 assembled = fold (paste_tile_osm19 size_of movement_pixels center_x center_y)
                               (zip (images c) (positions c))
                               \<lparr>canvas_size = (assembled_image_size_x, assembled_image_size_y),
                                  pastes = []\<rparr>
             in Inr \<lparr>messages = printed c, assembled_image = Some assembled,
                      saved = Some \<lparr>base_filename = output_base_filename, name_steps = steps,
                                     name_zoom = zoom_level,
                                     name_size = canvas_size assembled\<rparr>\<rparr>))"


section \<open>Properties of the traversal\<close>

lemma pan_events_append [simp]: "pan_events (es @ fs) = pan_events es @ pan_events fs"
  by (induction es rule: pan_events.induct) simp_all

lemma screenshots_append [simp]: "screenshots (es @ fs) = screenshots es @ screenshots fs"
  by (induction es rule: screenshots.induct) simp_all

lemma fold_preserves:
  assumes "P s" and "\<And>a t. P t \<Longrightarrow> P (f a t)"
  shows "P (fold f xs s)"
  using assms(1) by (induction xs arbitrary: s) (simp_all add: assms(2))

lemma sub_step_at [simp]:
  "at_x (sub_step crop m d w) = at_x w + fst d"
  "at_y (sub_step crop m d w) = at_y w + snd d"
  by (simp_all add: sub_step_def pan_with_mouse_def Let_def)

lemma sub_step_seen [simp]:
  "seen_positions (sub_step crop m d w) = insert (at_x w, at_y w) (seen_positions w)"
  by (simp add: sub_step_def pan_with_mouse_def Let_def)

lemma sub_step_trace:
  "trace (sub_step crop m d w) =
     trace w @ [if (at_x w, at_y w) \<in> seen_positions w
                then Skipped (at_x w, at_y w) else Screenshot (at_x w, at_y w), Pan d m]"
  by (simp add: sub_step_def pan_with_mouse_def Let_def)

lemma sub_step_size:
  "cropped_image_size (sub_step crop m d w) =
     (if (at_x w, at_y w) \<in> seen_positions w then cropped_image_size w
      else Some (crop (at_x w, at_y w)))"
  by (simp add: sub_step_def pan_with_mouse_def Let_def)

lemma leg_0 [simp]: "leg crop m 0 d w = w"
  by (simp add: leg_def)

lemma leg_Suc [simp]: "leg crop m (Suc n) d w = sub_step crop m d (leg crop m n d w)"
  by (simp add: leg_def)

lemma leg_at [simp]:
  "at_x (leg crop m n d w) = at_x w + int n * fst d"
  "at_y (leg crop m n d w) = at_y w + int n * snd d"
  by (induction n) (simp_all add: algebra_simps)

lemma leg_seen:
  "seen_positions (leg crop m n d w) =
     seen_positions w \<union> (\<lambda>j. (at_x w + int j * fst d, at_y w + int j * snd d)) ` {..<n}"
  by (induction n) (simp_all add: lessThan_Suc)

lemma leg_pans:
  "pan_events (trace (leg crop m n d w)) = pan_events (trace w) @ replicate n (d, m)"
  by (induction n) (simp_all add: sub_step_trace replicate_append_same)

lemma ring_unfold:
  "ring crop m k w =
     leg crop m k (-1, 0) (leg crop m k (0, 1) (leg crop m k (1, 0) (leg crop m k (0, -1) w)))"
  by (simp add: ring_def directions_values_def)

lemma ring_at [simp]:
  "at_x (ring crop m k w) = at_x w"
  "at_y (ring crop m k w) = at_y w"
  by (simp_all add: ring_unfold)

lemma rings_0 [simp]: "rings crop m 0 w = w"
  by (simp add: rings_def)

lemma rings_Suc [simp]: "rings crop m (Suc n) w = ring crop m (Suc n) (rings crop m n w)"
  by (simp add: rings_def)

lemma rings_at [simp]:
  "at_x (rings crop m n w) = at_x w"
  "at_y (rings crop m n w) = at_y w"
  by (induction n) simp_all

lemma ring_pans:
  "pan_events (trace (ring crop m k w)) =
     pan_events (trace w) @ concat (map (\<lambda>d. replicate k (d, m)) directions_values)"
  by (simp add: ring_unfold leg_pans directions_values_def)

lemma rings_pans:
  "pan_events (trace (rings crop m n w)) =
     pan_events (trace w) @
     concat (map (\<lambda>k. concat (map (\<lambda>d. replicate k (d, m)) directions_values)) [1..<Suc n])"
  by (induction n) (simp_all add: ring_pans)

lemma centering_0 [simp]: "centering m 0 w = w"
  by (simp add: centering_def)

lemma centering_Suc [simp]:
  "centering m (Suc n) w =
     pan_with_mouse (directions Right) (m div 2)
       (pan_with_mouse (directions Down) (m div 2) (centering m n w))"
  by (simp add: centering_def)

lemma centering_fields [simp]:
  "at_x (centering m n w) = at_x w"
  "at_y (centering m n w) = at_y w"
  "seen_positions (centering m n w) = seen_positions w"
  "cropped_image_size (centering m n w) = cropped_image_size w"
  by (induction n) (simp_all add: pan_with_mouse_def)

lemma concat_replicate_snoc:
  "concat (replicate n xs) @ xs = xs @ concat (replicate n xs)"
  by (induction n) simp_all

lemma centering_trace:
  "trace (centering m n w) =
     trace w @ concat (replicate n [Pan (0, 1) (m div 2), Pan (1, 0) (m div 2)])"
proof (induction n)
  case 0
  show ?case by simp
next
  case (Suc n)
  have "trace (centering m (Suc n) w) =
          trace w @ (concat (replicate n [Pan (0, 1) (m div 2), Pan (1, 0) (m div 2)])
                     @ [Pan (0, 1) (m div 2), Pan (1, 0) (m div 2)])"
    by (simp add: Suc pan_with_mouse_def)
  then show ?case
    by (simp only: concat_replicate_snoc) simp
qed

lemma up_leg_cells:
  "(\<lambda>j. (0::int, - int j)) ` {..<k} = {(x, y). x = 0 \<and> - int k < y \<and> y \<le> 0}"
proof (rule set_eqI, clarify)
  fix x y :: int
  show "((x, y) \<in> (\<lambda>j. (0::int, - int j)) ` {..<k}) = ((x, y) \<in> {(x, y). x = 0 \<and> - int k < y \<and> y \<le> 0})"
  proof
    assume "(x, y) \<in> (\<lambda>j. (0::int, - int j)) ` {..<k}"
    then show "(x, y) \<in> {(x, y). x = 0 \<and> - int k < y \<and> y \<le> 0}" by auto
  next
    assume "(x, y) \<in> {(x, y). x = 0 \<and> - int k < y \<and> y \<le> 0}"
    then have "x = 0" "nat (- y) < k" "y = - int (nat (- y))" by auto
    then show "(x, y) \<in> (\<lambda>j. (0::int, - int j)) ` {..<k}"
      by (metis (mono_tags, lifting) image_eqI lessThan_iff)
  qed
qed

lemma right_leg_cells:
  "(\<lambda>j. (int j, - int k)) ` {..<k} = {(x, y). 0 \<le> x \<and> x < int k \<and> y = - int k}"
proof (rule set_eqI, clarify)
  fix x y :: int
  show "((x, y) \<in> (\<lambda>j. (int j, - int k)) ` {..<k}) = ((x, y) \<in> {(x, y). 0 \<le> x \<and> x < int k \<and> y = - int k})"
  proof
    assume "(x, y) \<in> (\<lambda>j. (int j, - int k)) ` {..<k}"
    then show "(x, y) \<in> {(x, y). 0 \<le> x \<and> x < int k \<and> y = - int k}" by auto
  next
    assume "(x, y) \<in> {(x, y). 0 \<le> x \<and> x < int k \<and> y = - int k}"
    then have "y = - int k" "nat x < k" "x = int (nat x)" by auto
    then show "(x, y) \<in> (\<lambda>j. (int j, - int k)) ` {..<k}"
      by (metis (mono_tags, lifting) image_eqI lessThan_iff)
  qed
qed

lemma down_leg_cells:
  "(\<lambda>j. (int k, int j - int k)) ` {..<k} = {(x, y). x = int k \<and> - int k \<le> y \<and> y < 0}"
proof (rule set_eqI, clarify)
  fix x y :: int
  show "((x, y) \<in> (\<lambda>j. (int k, int j - int k)) ` {..<k}) = ((x, y) \<in> {(x, y). x = int k \<and> - int k \<le> y \<and> y < 0})"
  proof
    assume "(x, y) \<in> (\<lambda>j. (int k, int j - int k)) ` {..<k}"
    then show "(x, y) \<in> {(x, y). x = int k \<and> - int k \<le> y \<and> y < 0}" by auto
  next
    assume "(x, y) \<in> {(x, y). x = int k \<and> - int k \<le> y \<and> y < 0}"
    then have "x = int k" "nat (y + int k) < k" "y = int (nat (y + int k)) - int k" by auto
    then show "(x, y) \<in> (\<lambda>j. (int k, int j - int k)) ` {..<k}"
      by (metis (mono_tags, lifting) image_eqI lessThan_iff)
  qed
qed

lemma left_leg_cells:
  "(\<lambda>j. (int k - int j, 0::int)) ` {..<k} = {(x, y). 0 < x \<and> x \<le> int k \<and> y = 0}"
proof (rule set_eqI, clarify)
  fix x y :: int
  show "((x, y) \<in> (\<lambda>j. (int k - int j, 0::int)) ` {..<k}) = ((x, y) \<in> {(x, y). 0 < x \<and> x \<le> int k \<and> y = 0})"
  proof
    assume "(x, y) \<in> (\<lambda>j. (int k - int j, 0::int)) ` {..<k}"
    then show "(x, y) \<in> {(x, y). 0 < x \<and> x \<le> int k \<and> y = 0}" by auto
  next
    assume "(x, y) \<in> {(x, y). 0 < x \<and> x \<le> int k \<and> y = 0}"
    then have "y = 0" "nat (int k - x) < k" "x = int k - int (nat (int k - x))" by auto
    then show "(x, y) \<in> (\<lambda>j. (int k - int j, 0::int)) ` {..<k}"
      by (metis (mono_tags, lifting) image_eqI lessThan_iff)
  qed
qed

lemma ring_seen:
  assumes "at_x w = 0" "at_y w = 0"
  shows "seen_positions (ring crop m k w) = seen_positions w \<union> ring_cells k"
proof -
  define w1 where "w1 = leg crop m k (0, -1) w"
  define w2 where "w2 = leg crop m k (1, 0) w1"
  define w3 where "w3 = leg crop m k (0, 1) w2"
  have a1: "at_x w1 = 0" "at_y w1 = - int k" by (simp_all add: w1_def assms)
  have a2: "at_x w2 = int k" "at_y w2 = - int k" by (simp_all add: w2_def a1)
  have a3: "at_x w3 = int k" "at_y w3 = 0" by (simp_all add: w3_def a2)
  have s1: "seen_positions w1 = seen_positions w \<union> (\<lambda>j. (0::int, - int j)) ` {..<k}"
    by (simp add: w1_def leg_seen assms)
  have s2: "seen_positions w2 = seen_positions w1 \<union> (\<lambda>j. (int j, - int k)) ` {..<k}"
    by (simp add: w2_def leg_seen a1)
  have s3: "seen_positions w3 = seen_positions w2 \<union> (\<lambda>j. (int k, int j - int k)) ` {..<k}"
    by (simp add: w3_def leg_seen a2)
  have s4: "seen_positions (leg crop m k (-1, 0) w3) =
              seen_positions w3 \<union> (\<lambda>j. (int k - int j, 0::int)) ` {..<k}"
    by (simp add: leg_seen a3)
  have "ring crop m k w = leg crop m k (-1, 0) w3"
    by (simp add: ring_unfold w1_def w2_def w3_def)
  then have "seen_positions (ring crop m k w) = seen_positions (leg crop m k (-1, 0) w3)"
    by simp
  also have "\<dots> = seen_positions w \<union> ring_cells k"
    by (simp only: s4 s3 s2 s1 up_leg_cells right_leg_cells down_leg_cells left_leg_cells
          ring_cells_def Un_assoc)
  finally show ?thesis .
qed

lemma ring_cells_1: "ring_cells (Suc 0) = square (Suc 0)"
  by (auto simp: ring_cells_def square_def)

lemma square_Suc: "square n \<union> ring_cells (Suc n) = square (Suc n)"
  by (auto simp: ring_cells_def square_def)

lemma rings_seen:
  assumes "at_x w = 0" "at_y w = 0"
  shows "seen_positions (rings crop m (Suc n) w) = seen_positions w \<union> square (Suc n)"
proof (induction n)
  case 0
  show ?case by (simp add: ring_seen assms ring_cells_1)
next
  case (Suc n)
  have at: "at_x (rings crop m (Suc n) w) = 0" "at_y (rings crop m (Suc n) w) = 0"
    by (simp_all only: rings_at assms)
  have "seen_positions (rings crop m (Suc (Suc n)) w) =
          seen_positions (rings crop m (Suc n) w) \<union> ring_cells (Suc (Suc n))"
    by (simp only: rings_Suc [of crop m "Suc n"] ring_seen [OF at])
  also have "\<dots> = seen_positions w \<union> (square (Suc n) \<union> ring_cells (Suc (Suc n)))"
    by (simp only: Suc Un_assoc)
  finally show ?case
    by (simp only: square_Suc)
qed

lemma card_square: "card (square n) = (n + 1)\<^sup>2"
proof -
  have "square n = {0..int n} \<times> {- int n..0}"
    by (auto simp: square_def)
  moreover have "nat (int n + 1) = n + 1"
    by simp
  ultimately show ?thesis
    by (simp add: power2_eq_square del: of_nat_Suc)
qed

lemma visited_append [simp]: "visited (es @ fs) = visited es @ visited fs"
  by (induction es rule: visited.induct) simp_all

lemma consistent_sub_step:
  assumes "consistent w"
  shows "consistent (sub_step crop m d w)"
proof (cases "(at_x w, at_y w) \<in> seen_positions w")
  case True
  with assms show ?thesis
    by (auto simp: consistent_def sub_step_trace sub_step_size)
next
  case False
  with assms show ?thesis
    by (auto simp: consistent_def sub_step_trace sub_step_size)
qed

lemma consistent_leg: "consistent w \<Longrightarrow> consistent (leg crop m n d w)"
  unfolding leg_def by (rule fold_preserves) (simp_all add: consistent_sub_step)

lemma consistent_ring: "consistent w \<Longrightarrow> consistent (ring crop m k w)"
  unfolding ring_def by (rule fold_preserves) (simp_all add: consistent_leg)

lemma consistent_rings: "consistent w \<Longrightarrow> consistent (rings crop m n w)"
  unfolding rings_def by (rule fold_preserves) (simp_all add: consistent_ring)

lemma centering_no_capture:
  "screenshots (concat (replicate n [Pan a b, Pan c d])) = []"
  "visited (concat (replicate n [Pan a b, Pan c d])) = []"
  by (induction n) simp_all

lemma consistent_centering: "consistent (centering m n start)"
  by (simp add: consistent_def centering_trace centering_no_capture start_def)

lemma consistent_fetch_map_walk: "consistent (fetch_map_walk crop m steps)"
  by (simp add: fetch_map_walk_def consistent_rings consistent_centering)

lemma leg_visits:
  "length (visited (trace (leg crop m n d w))) = length (visited (trace w)) + n"
  by (induction n) (simp_all add: sub_step_trace)

lemma ring_visits:
  "length (visited (trace (ring crop m k w))) = length (visited (trace w)) + 4 * k"
  by (simp add: ring_unfold leg_visits)

lemma rings_visits:
  "length (visited (trace (rings crop m n w))) = length (visited (trace w)) + 2 * n * (n + 1)"
  by (induction n) (simp_all add: ring_visits)

lemma ring_pans_Suc:
  "ring_pans m (Suc n) = ring_pans m n @ concat (map (\<lambda>d. replicate (Suc n) (d, m)) directions_values)"
  by (simp add: ring_pans_def)

lemma length_ring_pans: "length (ring_pans m n) = 2 * n * (n + 1)"
proof (induction n)
  case 0
  show ?case by (simp add: ring_pans_def)
next
  case (Suc n)
  have "length (concat (map (\<lambda>d. replicate (Suc n) (d, m)) directions_values)) = 4 * Suc n"
    by (simp add: directions_values_def)
  with Suc show ?case
    by (simp add: ring_pans_Suc)
qed

lemma distance_ring_pans: "map snd (ring_pans m n) = replicate (2 * n * (n + 1)) m"
proof (rule replicate_eqI)
  show "length (map snd (ring_pans m n)) = 2 * n * (n + 1)"
    by (simp add: length_ring_pans)
next
  fix y
  assume "y \<in> set (map snd (ring_pans m n))"
  then show "y = m"
    by (auto simp: ring_pans_def)
qed

lemma half_product: "4 * n * (n + 1) div 2 = 2 * n * (n + (1::nat))"
proof -
  have "4 * n * (n + 1) = 2 * (2 * n * (n + 1))" by simp
  then show ?thesis by simp
qed

lemma fetch_map_walk_pans:
  "pan_events (trace (fetch_map_walk crop m (int n))) =
     concat (replicate n [((0, 1), m div 2), ((1, 0), m div 2)]) @ ring_pans m n"
proof -
  have "pan_events (concat (replicate k [Pan (0, 1) (m div 2), Pan (1, 0) (m div 2)])) =
          concat (replicate k [((0, 1), m div 2), ((1, 0), m div 2)])" for k
    by (induction k) simp_all
  then show ?thesis
    by (simp add: fetch_map_walk_def rings_pans centering_trace start_def ring_pans_def)
qed

lemma fetch_map_fst: "fst (fetch_map crop m steps) = trace (fetch_map_walk crop m steps)"
  by (simp add: fetch_map_def Let_def)

lemma fetch_map_walk_seen:
  "seen_positions (fetch_map_walk crop m (int (Suc n))) = square (Suc n)"
proof -
  define w0 where "w0 = centering m (Suc n) start"
  have at: "at_x w0 = 0" "at_y w0 = 0" and empty: "seen_positions w0 = {}"
    by (simp_all only: w0_def centering_fields) (simp_all add: start_def)
  have "fetch_map_walk crop m (int (Suc n)) = rings crop m (Suc n) w0"
    by (simp only: fetch_map_walk_def w0_def nat_int)
  then show ?thesis
    by (simp only: rings_seen [OF at] empty) simp
qed

lemma fetch_map_walk_at:
  "at_x (fetch_map_walk crop m steps) = 0" "at_y (fetch_map_walk crop m steps) = 0"
  by (simp_all add: fetch_map_walk_def start_def)

lemma rings_resume:
  assumes "k \<le> n"
  shows "rings crop m n w = fold (ring crop m) [Suc k..<Suc n] (rings crop m k w)"
proof -
  obtain d where n: "n = k + d"
    using assms by (auto simp: le_iff_add)
  have "[1..<Suc k + d] = [1..<Suc k] @ [Suc k..<Suc k + d]"
    by (rule upt_add_eq_append) simp
  then have "[1..<Suc n] = [1..<Suc k] @ [Suc k..<Suc n]"
    by (simp add: n)
  then show ?thesis
    by (simp add: rings_def)
qed

lemma fetch_map_returns:
  "\<exists>s. snd (fetch_map crop m (int (Suc n))) = Inr s"
proof -
  have "consistent (fetch_map_walk crop m (int (Suc n)))"
    by (rule consistent_fetch_map_walk)
  moreover have "(0, 0) \<in> seen_positions (fetch_map_walk crop m (int (Suc n)))"
    by (simp only: fetch_map_walk_seen) (simp add: square_def)
  ultimately have "cropped_image_size (fetch_map_walk crop m (int (Suc n))) \<noteq> None"
    by (auto simp: consistent_def)
  then show ?thesis
    by (auto simp: fetch_map_def Let_def)
qed

section \<open>Claims about the traversal\<close>

text \<open>
  Claim C2, as stated, at one ring: the traversal calls \<open>pan_with_mouse\<close> six times
  (two centering pans and four ring pans), not \<open>4 * 1 * (1 + 1) / 2 = 4\<close> times.
\<close>

theorem fetch_map_pan_count_counterexample:
  "length (pan_events (fst (fetch_map (\<lambda>_. (400, 300)) 800 1))) \<noteq> 4 * 1 * (1 + 1) div 2"
  by code_simp

text \<open>
  Claim C2, amended: for every ring count \<open>N\<close>, one complete traversal emits first
  \<open>N\<close> times a pan down and a pan right of half the pan distance, and then the pans
  of the rings, which are exactly \<open>4 * N * (N + 1) / 2\<close> pans of the full
  distance; the sequence is finite and has \<open>2 * N + 4 * N * (N + 1) / 2\<close> pan
  events in all.
\<close>

theorem fetch_map_pan_events:
  "pan_events (fst (fetch_map crop m (int N))) =
     concat (replicate N [((0, 1), m div 2), ((1, 0), m div 2)]) @ ring_pans m N
   \<and> length (ring_pans m N) = 4 * N * (N + 1) div 2
   \<and> map snd (ring_pans m N) = replicate (4 * N * (N + 1) div 2) m
   \<and> length (pan_events (fst (fetch_map crop m (int N)))) = 2 * N + 4 * N * (N + 1) div 2"
  by (simp only: fetch_map_fst fetch_map_walk_pans half_product length_ring_pans
        distance_ring_pans length_append length_concat) (simp add: sum_list_replicate)

text \<open>
  Claim C3: for every ring count \<open>N \<ge> 1\<close> the traversal captures at most once per
  grid position. Each run of the loop body tests the current position against
  \<open>seen_positions\<close>, takes a screenshot only when it is not there, pans in both
  cases, and records the position. Hence no two screenshots are at the same position,
  the positions with a screenshot are exactly the positions the loop body has run at
  (\<open>4 * N * (N + 1) / 2\<close> runs), they are the final \<open>seen_positions\<close>, and the
  position the walk ends at is among them.
\<close>

theorem fetch_map_captures_once:
  assumes "1 \<le> N"
  shows "distinct (screenshots (fst (fetch_map crop m (int N))))
       \<and> set (screenshots (fst (fetch_map crop m (int N)))) = set (visited (fst (fetch_map crop m (int N))))
       \<and> seen_positions (fetch_map_walk crop m (int N)) = set (screenshots (fst (fetch_map crop m (int N))))
       \<and> (at_x (fetch_map_walk crop m (int N)), at_y (fetch_map_walk crop m (int N)))
            \<in> set (screenshots (fst (fetch_map crop m (int N))))
       \<and> length (visited (fst (fetch_map crop m (int N)))) = 4 * N * (N + 1) div 2
       \<and> (\<forall>w d. seen_positions (sub_step crop m d w) = insert (at_x w, at_y w) (seen_positions w)
               \<and> trace (sub_step crop m d w) =
                   trace w @ [if (at_x w, at_y w) \<in> seen_positions w
                              then Skipped (at_x w, at_y w) else Screenshot (at_x w, at_y w),
                              Pan d m])"
proof -
  obtain n where N: "N = Suc n"
    using assms by (cases N) simp_all
  let ?w = "fetch_map_walk crop m (int N)"
  have c: "consistent ?w"
    by (rule consistent_fetch_map_walk)
  have "(0, 0) \<in> seen_positions ?w"
    unfolding N by (simp only: fetch_map_walk_seen) (simp add: square_def)
  then have origin: "(at_x ?w, at_y ?w) \<in> seen_positions ?w"
    by (simp only: fetch_map_walk_at)
  have "length (visited (trace ?w)) = 2 * N * (N + 1)"
    by (simp add: fetch_map_walk_def rings_visits centering_trace centering_no_capture start_def)
  then have visits: "length (visited (trace ?w)) = 4 * N * (N + 1) div 2"
    by (simp only: half_product)
  show ?thesis
    using c origin visits
    by (simp add: fetch_map_fst consistent_def sub_step_trace)
qed

text \<open>Claim C3 at two rings, where the second ring revisits cells of the first.\<close>

theorem fetch_map_captures_once_witness:
  "distinct (screenshots (fst (fetch_map (\<lambda>_. (400, 300)) 800 2)))
   \<and> set (visited (fst (fetch_map (\<lambda>_. (400, 300)) 800 2)))
       = set (screenshots (fst (fetch_map (\<lambda>_. (400, 300)) 800 2)))
   \<and> length (visited (fst (fetch_map (\<lambda>_. (400, 300)) 800 2))) = 12"
  using fetch_map_captures_once [of 2 "\<lambda>_. (400, 300)" 800] by simp

text \<open>
  Claim C10: for every ring count \<open>N \<ge> 1\<close> the positions at which a screenshot is
  taken are exactly the cells \<open>(x, y)\<close> with \<open>0 \<le> x \<le> N\<close> and \<open>-N \<le> y \<le> 0\<close>,
  there are \<open>(N + 1)\<^sup>2\<close> of them, each captured once, and after every completed ring
  \<open>k \<le> N\<close> of the traversal the current position is \<open>(0, 0)\<close> again.
\<close>

theorem fetch_map_captured_region:
  assumes "1 \<le> N"
  shows "set (screenshots (fst (fetch_map crop m (int N)))) =
           {(x, y). 0 \<le> x \<and> x \<le> int N \<and> - int N \<le> y \<and> y \<le> 0}
       \<and> card (set (screenshots (fst (fetch_map crop m (int N))))) = (N + 1)\<^sup>2
       \<and> length (screenshots (fst (fetch_map crop m (int N)))) = (N + 1)\<^sup>2
       \<and> (\<forall>k\<le>N. fetch_map_walk crop m (int N) =
                    fold (ring crop m) [Suc k..<Suc N] (rings crop m k (centering m N start))
                 \<and> at_x (rings crop m k (centering m N start)) = 0
                 \<and> at_y (rings crop m k (centering m N start)) = 0)"
proof -
  obtain n where N: "N = Suc n"
    using assms by (cases N) simp_all
  let ?w = "fetch_map_walk crop m (int N)"
  have c: "consistent ?w"
    by (rule consistent_fetch_map_walk)
  have seen: "seen_positions ?w = square N"
    unfolding N by (rule fetch_map_walk_seen)
  from c seen have shots: "set (screenshots (trace ?w)) = square N"
    and dist: "distinct (screenshots (trace ?w))"
    by (simp_all add: consistent_def)
  have region: "set (screenshots (trace ?w)) =
                  {(x, y). 0 \<le> x \<and> x \<le> int N \<and> - int N \<le> y \<and> y \<le> 0}"
    by (simp only: shots square_def)
  have card: "card (set (screenshots (trace ?w))) = (N + 1)\<^sup>2"
    by (simp only: shots card_square)
  have len: "length (screenshots (trace ?w)) = (N + 1)\<^sup>2"
    using dist card by (simp only: distinct_card [symmetric])
  have resume: "\<forall>k\<le>N. ?w = fold (ring crop m) [Suc k..<Suc N] (rings crop m k (centering m N start))
                 \<and> at_x (rings crop m k (centering m N start)) = 0
                 \<and> at_y (rings crop m k (centering m N start)) = 0"
  proof (intro allI impI conjI)
    fix k
    assume "k \<le> N"
    then show "?w = fold (ring crop m) [Suc k..<Suc N] (rings crop m k (centering m N start))"
      by (simp only: fetch_map_walk_def nat_int rings_resume [symmetric])
  qed (simp_all add: start_def)
  show ?thesis
    using region card len resume by (simp only: fetch_map_fst simp_thms)
qed

text \<open>Claim C10 at two rings: nine cells.\<close>

theorem fetch_map_captured_region_witness:
  "set (screenshots (fst (fetch_map (\<lambda>_. (400, 300)) 800 2))) =
     {(x, y). 0 \<le> x \<and> x \<le> 2 \<and> - 2 \<le> y \<and> y \<le> 0}
   \<and> length (screenshots (fst (fetch_map (\<lambda>_. (400, 300)) 800 2))) = 9"
  using fetch_map_captured_region [of 2 "\<lambda>_. (400, 300)" 800] by simp

text \<open>
  Claim C4, as stated: at one ring the captured positions are not the four
  unit-distance neighbours of the origin.
\<close>

theorem fetch_map_one_ring_counterexample:
  "set (screenshots (fst (fetch_map (\<lambda>_. (400, 300)) 800 1)))
     \<noteq> {(0, -1), (1, 0), (0, 1), (-1, 0)}"
  by code_simp

text \<open>
  Claim C4, amended: for ring count 1, after the centering adjustment (a pan down and
  a pan right of half the distance), the traversal pans once in each of the four
  directions up, right, down, left, each from the position the previous pan reached;
  before each pan it captures the current position, so the captured positions are
  \<open>(0, 0)\<close>, \<open>(0, -1)\<close>, \<open>(1, -1)\<close> and \<open>(1, 0)\<close>, each once, with no capture skipped,
  and the size returned is that of the last capture, at \<open>(1, 0)\<close>.
\<close>

theorem fetch_map_one_ring:
  "fetch_map crop m 1 =
     ([Pan (0, 1) (m div 2), Pan (1, 0) (m div 2),
       Screenshot (0, 0), Pan (0, -1) m,
       Screenshot (0, -1), Pan (1, 0) m,
       Screenshot (1, -1), Pan (0, 1) m,
       Screenshot (1, 0), Pan (-1, 0) m],
      Inr (crop (1, 0)))"
  by (simp add: fetch_map_def fetch_map_walk_def rings_def ring_def leg_def centering_def
        directions_values_def sub_step_def pan_with_mouse_def start_def Let_def)

text \<open>
  Claim C8: for ring count 0 the traversal emits no pan and no capture, but it does
  not return: \<open>return cropped_image_size\<close> reads a variable that no capture has
  bound, and raises \<open>UnboundLocalError\<close>.
\<close>

theorem fetch_map_zero_rings:
  "fetch_map crop m 0 = ([], Inl UnboundLocalError)"
  by (simp add: fetch_map_def fetch_map_walk_def rings_def centering_def start_def)

text \<open>
  Claim C9, as stated, at pan distance \<open>-800\<close> and one ring: nothing is rejected;
  all six pans are emitted with the negative distance and the function returns
  normally.
\<close>

theorem fetch_map_negative_distance_counterexample:
  "fetch_map (\<lambda>_. (400, 300)) (- 800) 1 =
     ([Pan (0, 1) (- 400), Pan (1, 0) (- 400),
       Screenshot (0, 0), Pan (0, -1) (- 800),
       Screenshot (0, -1), Pan (1, 0) (- 800),
       Screenshot (1, -1), Pan (0, 1) (- 800),
       Screenshot (1, 0), Pan (-1, 0) (- 800)],
      Inr (400, 300))"
  by code_simp

text \<open>
  Claim C9, amended: \<open>fetch_map\<close> makes no check of the pan distance. For every pan
  distance \<open>m \<le> 0\<close> and ring count \<open>N \<ge> 1\<close> the traversal runs to completion and
  returns the size of a capture, having emitted all its
  \<open>2 * N + 4 * N * (N + 1) / 2\<close> pans with the distance it was given.
\<close>

theorem fetch_map_no_configuration_check:
  assumes "m \<le> 0" and "1 \<le> N"
  shows "(\<exists>s. snd (fetch_map crop m (int N)) = Inr s)
       \<and> length (pan_events (fst (fetch_map crop m (int N)))) = 2 * N + 4 * N * (N + 1) div 2
       \<and> pan_events (fst (fetch_map crop m (int N))) =
           concat (replicate N [((0, 1), m div 2), ((1, 0), m div 2)]) @ ring_pans m N"
proof -
  obtain n where N: "N = Suc n"
    using assms(2) by (cases N) simp_all
  have ret: "\<exists>s. snd (fetch_map crop m (int N)) = Inr s"
    unfolding N by (rule fetch_map_returns)
  have "length (pan_events (trace (fetch_map_walk crop m (int N)))) = 2 * N + 2 * N * (N + 1)"
    by (simp add: fetch_map_walk_pans length_ring_pans length_concat sum_list_replicate)
  then have count: "length (pan_events (fst (fetch_map crop m (int N)))) = 2 * N + 4 * N * (N + 1) div 2"
    by (simp only: fetch_map_fst half_product)
  have "pan_events (fst (fetch_map crop m (int N))) =
          concat (replicate N [((0, 1), m div 2), ((1, 0), m div 2)]) @ ring_pans m N"
    by (simp only: fetch_map_fst fetch_map_walk_pans)
  with ret count show ?thesis
    by (simp only: simp_thms)
qed

text \<open>Claim C9, amended, at pan distance \<open>-800\<close> and one ring.\<close>

theorem fetch_map_no_configuration_check_witness:
  "(\<exists>s. snd (fetch_map (\<lambda>_. (400, 300)) (- 800) (int 1)) = Inr s)
   \<and> length (pan_events (fst (fetch_map (\<lambda>_. (400, 300)) (- 800) (int 1)))) = 6"
  using fetch_map_no_configuration_check [of "- 800" 1 "\<lambda>_. (400, 300)"] by (simp add: length_ring_pans)

section \<open>Properties of the assembler\<close>

lemma collect_pairs:
  assumes "collect parse fs c = Inr c'"
    and "list_all2 (\<lambda>f pos. f \<in> A \<and> parse f = Inr pos) (images c) (positions c)"
    and "set fs \<subseteq> A"
  shows "list_all2 (\<lambda>f pos. f \<in> A \<and> parse f = Inr pos) (images c') (positions c')"
  using assms
proof (induction fs arbitrary: c)
  case Nil
  then show ?case by simp
next
  case (Cons f fs)
  show ?case
  proof (cases "py_endswith f ''.png''")
    case False
    with Cons show ?thesis by simp
  next
    case True
    show ?thesis
    proof (cases "parse f")
      case (Inr pos)
      let ?c = "c\<lparr>images := images c @ [f], positions := positions c @ [pos]\<rparr>"
      have "collect parse fs ?c = Inr c'"
        using Cons.prems(1) True Inr by simp
      moreover have "list_all2 (\<lambda>f pos. f \<in> A \<and> parse f = Inr pos) (images ?c) (positions ?c)"
        using Cons.prems(2,3) Inr by (simp add: list_all2_appendI)
      ultimately show ?thesis
        using Cons.IH Cons.prems(3) by simp
    next
      case (Inl e)
      then have e: "e = ValueError"
        using Cons.prems(1) True by (cases e) simp_all
      let ?c = "c\<lparr>printed := printed c @ [Skipping_invalid_filename f]\<rparr>"
      have "collect parse fs ?c = Inr c'"
        using Cons.prems(1) True Inl e by simp
      moreover have "list_all2 (\<lambda>f pos. f \<in> A \<and> parse f = Inr pos) (images ?c) (positions ?c)"
        using Cons.prems(2) by simp
      ultimately show ?thesis
        using Cons.IH Cons.prems(3) by simp
    qed
  qed
qed

lemma paste_tile_fold:
  "canvas_size (fold (paste_tile size_of mp cx cy) tiles cv) = canvas_size cv \<and>
   pastes (fold (paste_tile size_of mp cx cy) tiles cv) =
     pastes cv @
     map (\<lambda>(image, pos).
            \<lparr>img = image, img_size = size_of image,
               box = (cx - fst pos * mp - fst (size_of image) div 2,
                      cy - snd pos * mp - snd (size_of image) div 2)\<rparr>) tiles"
  by (induction tiles arbitrary: cv)
     (simp_all add: paste_tile_def split_beta Let_def)

lemma assemble_image_details_canvas:
  assumes "assemble_image_details listdir size_of base mp (w, h) zoom steps = Inr out"
    and "assembled_image out = Some cv"
  shows "canvas_size cv = (w + mp * steps * 2 + 6000, h + mp * steps * 2 + 6000)
       \<and> (\<forall>c \<in> set (pastes cv).
             img c \<in> set listdir \<and> img_size c = size_of (img c) \<and>
             (\<exists>x y. parse_position (img c) = Inr (x, y) \<and>
                    box c = ((w + mp * steps * 2 + 6000) div 2 - x * mp - fst (img_size c) div 2,
                             (h + mp * steps * 2 + 6000) div 2 - y * mp - snd (img_size c) div 2)))"
proof -
  let ?c0 = "\<lparr>images = [], positions = [], printed = []\<rparr>"
  obtain c where c: "collect parse_position (sort listdir) ?c0 = Inr c"
    using assms(1) by (cases "collect parse_position (sort listdir) ?c0")
      (simp_all add: assemble_image_details_def)
  have pairs: "list_all2 (\<lambda>f pos. f \<in> set listdir \<and> parse_position f = Inr pos)
                 (images c) (positions c)"
    by (rule collect_pairs [OF c]) simp_all
  have nonempty: "positions c \<noteq> []"
    using assms c by (auto simp: assemble_image_details_def split: if_splits)
  let ?cx = "(w + mp * steps * 2 + 6000) div 2" and ?cy = "(h + mp * steps * 2 + 6000) div 2"
  have cv: "cv = fold (paste_tile size_of mp ?cx ?cy) (zip (images c) (positions c))
                   \<lparr>canvas_size = (w + mp * steps * 2 + 6000, h + mp * steps * 2 + 6000),
                      pastes = []\<rparr>"
    using assms c nonempty by (auto simp: assemble_image_details_def Let_def)
  have size: "canvas_size cv = (w + mp * steps * 2 + 6000, h + mp * steps * 2 + 6000)"
    unfolding cv by (simp add: paste_tile_fold)
  have all: "\<forall>c' \<in> set (pastes cv).
             img c' \<in> set listdir \<and> img_size c' = size_of (img c') \<and>
             (\<exists>x y. parse_position (img c') = Inr (x, y) \<and>
                    box c' = (?cx - x * mp - fst (img_size c') div 2,
                              ?cy - y * mp - snd (img_size c') div 2))"
  proof
    fix c'
    assume "c' \<in> set (pastes cv)"
    then obtain f pos where fp: "(f, pos) \<in> set (zip (images c) (positions c))"
      and c': "c' = \<lparr>img = f, img_size = size_of f,
                      box = (?cx - fst pos * mp - fst (size_of f) div 2,
                             ?cy - snd pos * mp - snd (size_of f) div 2)\<rparr>"
      unfolding cv by (auto simp: paste_tile_fold)
    from pairs fp have "f \<in> set listdir" "parse_position f = Inr pos"
      by (auto simp: list_all2_iff)
    then show "img c' \<in> set listdir \<and> img_size c' = size_of (img c') \<and>
             (\<exists>x y. parse_position (img c') = Inr (x, y) \<and>
                    box c' = (?cx - x * mp - fst (img_size c') div 2,
                              ?cy - y * mp - snd (img_size c') div 2))"
      unfolding c' by (cases pos) simp
  qed
  show ?thesis by (intro conjI size all)
qed

lemma half_with_margin: "(a + k * 2 + 6000) div 2 = a div 2 + k + (3000::int)"
  by simp

lemma within_canvas:
  fixes p n x a :: int
  assumes "0 < p" "\<bar>x\<bar> \<le> n"
  shows "0 \<le> (a + p * n * 2 + 6000) div 2 - x * p - a div 2"
    and "(a + p * n * 2 + 6000) div 2 - x * p - a div 2 + a \<le> a + p * n * 2 + 6000"
proof -
  have "x \<le> n" "- n \<le> x"
    using assms(2) by simp_all
  then have "x * p \<le> n * p" "(- n) * p \<le> x * p"
    using assms(1) by (simp_all only: mult_right_mono less_imp_le)
  then show "0 \<le> (a + p * n * 2 + 6000) div 2 - x * p - a div 2"
    and "(a + p * n * 2 + 6000) div 2 - x * p - a div 2 + a \<le> a + p * n * 2 + 6000"
    by (simp_all add: half_with_margin mult.commute)
qed

lemma collect_completes:
  assumes "\<forall>f \<in> set fs. py_endswith f ''.png'' \<longrightarrow> parse f = Inl ValueError"
  shows "collect parse fs c =
           Inr (c\<lparr>printed := printed c @
                    map Skipping_invalid_filename (filter (\<lambda>f. py_endswith f ''.png'') fs)\<rparr>)"
  using assms by (induction fs arbitrary: c) simp_all

lemma collect_skips_invalid:
  assumes "py_endswith f ''.png''" and "parse f = Inl ValueError"
  shows "collect parse (f # rest) c =
           collect parse rest (c\<lparr>printed := printed c @ [Skipping_invalid_filename f]\<rparr>)"
  using assms by simp

lemma collect_aborts:
  assumes "py_endswith f ''.png''" and "parse f = Inl IndexError"
  shows "collect parse (f # rest) c = Inl IndexError"
  using assms by simp

lemma assemble_image_details_nothing:
  assumes "\<forall>f \<in> set listdir. py_endswith f ''.png'' \<longrightarrow> parse_position f = Inl ValueError"
  shows "assemble_image_details listdir size_of base mp cropped_size zoom steps =
           Inr \<lparr>messages = map Skipping_invalid_filename
                               (filter (\<lambda>f. py_endswith f ''.png'') (sort listdir))
                             @ [No_valid_images],
                  assembled_image = None, saved = None\<rparr>"
proof -
  have "\<forall>f \<in> set (sort listdir). py_endswith f ''.png'' \<longrightarrow> parse_position f = Inl ValueError"
    using assms by simp
  then show ?thesis
    by (simp add: assemble_image_details_def collect_completes)
qed

lemma assemble_image_details_example:
  "assemble_image_details [''screenshot_0_0.png'', ''screenshot_1_0.png'', ''screenshot_0_1.png'']
     (\<lambda>_. (400, 300)) ''map'' 800 (400, 300) 13 1
   = Inr \<lparr>messages = [],
          assembled_image = Some \<lparr>canvas_size = (8000, 7900),
            pastes = [\<lparr>img = ''screenshot_0_0.png'', img_size = (400, 300), box = (3800, 3800)\<rparr>,
                      \<lparr>img = ''screenshot_0_1.png'', img_size = (400, 300), box = (3800, 3000)\<rparr>,
                      \<lparr>img = ''screenshot_1_0.png'', img_size = (400, 300), box = (3000, 3800)\<rparr>]\<rparr>,
          saved = Some \<lparr>base_filename = ''map'', name_steps = 1, name_zoom = 13, name_size = (8000, 7900)\<rparr>\<rparr>"
  by code_simp

text \<open>
  What a run that is not aborted returns: the canvas, every paste on it and the file
  saved, as a function of the directory listing.
\<close>

lemma parse_fields_errors:
  assumes "parse_fields i j f = Inl e"
  shows "e = ValueError \<or> e = IndexError"
  using assms
  by (auto simp: parse_fields_def py_index_def py_int_def Let_def
           split: sum.splits if_splits prod.splits)

lemma collect_all:
  assumes "\<forall>f \<in> set fs. py_endswith f ''.png'' \<longrightarrow> parse f \<noteq> Inl IndexError \<and> parse f \<noteq> Inl UnboundLocalError"
  shows "collect parse fs c =
           Inr (c\<lparr>images := images c @ filter (\<lambda>f. py_endswith f ''.png'' \<and> \<not> isl (parse f)) fs,
                  positions := positions c @
                    map (\<lambda>f. projr (parse f)) (filter (\<lambda>f. py_endswith f ''.png'' \<and> \<not> isl (parse f)) fs),
                  printed := printed c @
                    map Skipping_invalid_filename
                      (filter (\<lambda>f. py_endswith f ''.png'' \<and> isl (parse f)) fs)\<rparr>)"
  using assms
proof (induction fs arbitrary: c)
  case Nil
  show ?case by simp
next
  case (Cons f fs)
  then have rest: "\<forall>f \<in> set fs. py_endswith f ''.png'' \<longrightarrow> parse f \<noteq> Inl IndexError \<and> parse f \<noteq> Inl UnboundLocalError"
    by simp
  note IH = Cons.IH [OF rest]
  show ?case
  proof (cases "py_endswith f ''.png''")
    case False
    then show ?thesis by (simp add: IH)
  next
    case True
    show ?thesis
    proof (cases "parse f")
      case (Inr pos)
      with True show ?thesis by (simp add: IH)
    next
      case (Inl e)
      with True Cons.prems have "e = ValueError"
        by (cases e) simp_all
      with True Inl show ?thesis by (simp add: IH)
    qed
  qed
qed

lemma zip_with_map: "zip xs (map g xs) = map (\<lambda>x. (x, g x)) xs"
  by (induction xs) simp_all

lemma assemble_image_details_run:
  assumes no_abort: "\<forall>f \<in> set listdir. py_endswith f ''.png'' \<longrightarrow> parse_position f \<noteq> Inl IndexError"
    and some_tile: "\<exists>f \<in> set listdir. py_endswith f ''.png'' \<and> \<not> isl (parse_position f)"
  shows "assemble_image_details listdir size_of base mp (w, h) zoom steps =
           Inr \<lparr>messages = map Skipping_invalid_filename
                    (filter (\<lambda>f. py_endswith f ''.png'' \<and> isl (parse_position f)) (sort listdir)),
                  assembled_image = Some
                    \<lparr>canvas_size = (w + mp * steps * 2 + 6000, h + mp * steps * 2 + 6000),
                       pastes = map (\<lambda>f. \<lparr>img = f, img_size = size_of f,
                                      box = ((w + mp * steps * 2 + 6000) div 2
                                               - fst (projr (parse_position f)) * mp
                                               - fst (size_of f) div 2,
                                             (h + mp * steps * 2 + 6000) div 2
                                               - snd (projr (parse_position f)) * mp
                                               - snd (size_of f) div 2)\<rparr>)
                                (filter (\<lambda>f. py_endswith f ''.png'' \<and> \<not> isl (parse_position f))
                                   (sort listdir))\<rparr>,
                  saved = Some \<lparr>base_filename = base, name_steps = steps, name_zoom = zoom,
                                 name_size = (w + mp * steps * 2 + 6000,
                                              h + mp * steps * 2 + 6000)\<rparr>\<rparr>"
proof -
  let ?c0 = "\<lparr>images = [], positions = [], printed = []\<rparr>"
  let ?valid = "filter (\<lambda>f. py_endswith f ''.png'' \<and> \<not> isl (parse_position f)) (sort listdir)"
  have "\<forall>f \<in> set (sort listdir). py_endswith f ''.png'' \<longrightarrow>
          parse_position f \<noteq> Inl IndexError \<and> parse_position f \<noteq> Inl UnboundLocalError"
    using no_abort parse_fields_errors [of 1 2] by (auto simp: parse_position_def)
  then have c: "collect parse_position (sort listdir) ?c0 =
                  Inr \<lparr>images = ?valid, positions = map (\<lambda>f. projr (parse_position f)) ?valid,
                        printed = map Skipping_invalid_filename
                          (filter (\<lambda>f. py_endswith f ''.png'' \<and> isl (parse_position f)) (sort listdir))\<rparr>"
    by (simp add: collect_all)
  have nonempty: "?valid \<noteq> []"
    using some_tile by (auto simp: filter_empty_conv)
  show ?thesis
    using nonempty
    by (simp add: assemble_image_details_def c Let_def paste_tile_fold zip_with_map
          split_beta comp_def)
qed

section \<open>Claims about the assembler\<close>

text \<open>
  Claim C1: the assembler is to paste the tile at \<open>(x, y)\<close> of size \<open>(w, h)\<close> at
  \<open>(centerX - x * p - w / 2, centerY - y * p - h / 2)\<close>. The assembler of osm20.py does
  (\<open>assemble_image_details_canvas\<close>, \<open>assemble_image_details_example\<close>). The one of
  osm19.py takes \<open>h / 2\<close> from \<open>x\<close> and \<open>w / 2\<close> from \<open>y\<close>: a single tile at
  \<open>(0, 0)\<close> of size 400 by 300, with pan distance 800 and one ring, gets a canvas of
  2000 by 1900 and is pasted at \<open>(850, 750)\<close>, not at \<open>(800, 800)\<close>, so its centre is
  not the centre of the canvas.
\<close>

theorem assemble_image_details_osm19_swaps_halves:
  "assemble_image_details_osm19 [''screenshot_#0_0_0.png''] (\<lambda>_. (400, 300)) ''map'' 800
     (400, 300) 15 1
   = Inr \<lparr>messages = [],
          assembled_image = Some \<lparr>canvas_size = (2000, 1900),
            pastes = [\<lparr>img = ''screenshot_#0_0_0.png'', img_size = (400, 300), box = (850, 750)\<rparr>]\<rparr>,
          saved = Some \<lparr>base_filename = ''map'', name_steps = 1, name_zoom = 15, name_size = (2000, 1900)\<rparr>\<rparr>
   \<and> ((850::int), (750::int)) \<noteq> (2000 div 2 - 0 * 800 - 400 div 2, 1900 div 2 - 0 * 800 - (300::int) div 2)"
  by code_simp

text \<open>
  Claim C5: for pan distance \<open>p > 0\<close>, ring count \<open>N \<ge> 1\<close> and tiles of one size
  \<open>(tileW, tileH)\<close>, on a directory that holds at least one tile and no \<open>.png\<close>
  name with a missing field (which would abort the run, see C7), the assembler of
  osm20.py returns, having created a canvas of width \<open>tileW + 2 * p * N + 6000\<close> and
  height \<open>tileH + 2 * p * N + 6000\<close> and pasted every tile of the directory on it, each
  once, in sorted order, and nothing else. The tile at \<open>(x, y)\<close> is pasted at
  \<open>(canvasW / 2 - x * p - tileW / 2, canvasH / 2 - y * p - tileH / 2)\<close>, and when
  \<open>\<bar>x\<bar> \<le> N\<close> and \<open>\<bar>y\<bar> \<le> N\<close> its whole rectangle lies inside the canvas.
\<close>

theorem assemble_image_details_within_canvas:
  assumes "0 < p" and "1 \<le> N"
    and uniform: "\<forall>f \<in> set listdir. size_of f = (tileW, tileH)"
    and no_abort: "\<forall>f \<in> set listdir. py_endswith f ''.png'' \<longrightarrow> parse_position f \<noteq> Inl IndexError"
    and some_tile: "\<exists>f \<in> set listdir. py_endswith f ''.png'' \<and> \<not> isl (parse_position f)"
  shows "\<exists>out cv.
           assemble_image_details listdir size_of base p (tileW, tileH) zoom N = Inr out
         \<and> assembled_image out = Some cv
         \<and> canvas_size cv = (tileW + 2 * p * N + 6000, tileH + 2 * p * N + 6000)
         \<and> map img (pastes cv) =
             filter (\<lambda>f. py_endswith f ''.png'' \<and> \<not> isl (parse_position f)) (sort listdir)
         \<and> (\<forall>c \<in> set (pastes cv). \<forall>x y.
               parse_position (img c) = Inr (x, y) \<longrightarrow>
                 img_size c = (tileW, tileH)
               \<and> box c = (fst (canvas_size cv) div 2 - x * p - tileW div 2,
                          snd (canvas_size cv) div 2 - y * p - tileH div 2)
               \<and> (\<bar>x\<bar> \<le> N \<and> \<bar>y\<bar> \<le> N \<longrightarrow>
                    0 \<le> fst (box c) \<and> fst (box c) + fst (img_size c) \<le> fst (canvas_size cv) \<and>
                    0 \<le> snd (box c) \<and> snd (box c) + snd (img_size c) \<le> snd (canvas_size cv)))"
proof -
  let ?W = "tileW + p * N * 2 + 6000" and ?H = "tileH + p * N * 2 + 6000"
  let ?valid = "filter (\<lambda>f. py_endswith f ''.png'' \<and> \<not> isl (parse_position f)) (sort listdir)"
  let ?paste = "\<lambda>f. \<lparr>img = f, img_size = size_of f,
                       box = (?W div 2 - fst (projr (parse_position f)) * p - fst (size_of f) div 2,
                              ?H div 2 - snd (projr (parse_position f)) * p - snd (size_of f) div 2)\<rparr>"
  let ?cv = "\<lparr>canvas_size = (?W, ?H), pastes = map ?paste ?valid\<rparr>"
  let ?out = "\<lparr>messages = map Skipping_invalid_filename
                    (filter (\<lambda>f. py_endswith f ''.png'' \<and> isl (parse_position f)) (sort listdir)),
                assembled_image = Some ?cv,
                saved = Some \<lparr>base_filename = base, name_steps = N, name_zoom = zoom,
                               name_size = (?W, ?H)\<rparr>\<rparr>"
  have run: "assemble_image_details listdir size_of base p (tileW, tileH) zoom N = Inr ?out"
    by (rule assemble_image_details_run [OF no_abort some_tile])
  have eqW: "tileW + 2 * p * N + 6000 = ?W" and eqH: "tileH + 2 * p * N + 6000 = ?H"
    by simp_all
  have names: "map img (pastes ?cv) = ?valid"
    by (simp add: comp_def)
  have each: "img_size c = (tileW, tileH)
               \<and> box c = (fst (canvas_size ?cv) div 2 - x * p - tileW div 2,
                          snd (canvas_size ?cv) div 2 - y * p - tileH div 2)
               \<and> (\<bar>x\<bar> \<le> N \<and> \<bar>y\<bar> \<le> N \<longrightarrow>
                    0 \<le> fst (box c) \<and> fst (box c) + fst (img_size c) \<le> fst (canvas_size ?cv) \<and>
                    0 \<le> snd (box c) \<and> snd (box c) + snd (img_size c) \<le> snd (canvas_size ?cv))"
    if c: "c \<in> set (pastes ?cv)" and pos: "parse_position (img c) = Inr (x, y)" for c x y
  proof -
    from c obtain f where f: "f \<in> set listdir" and cf: "c = ?paste f"
      by auto
    from pos cf have xy: "projr (parse_position f) = (x, y)"
      by simp
    from uniform f have sz: "size_of f = (tileW, tileH)"
      by simp
    have bx: "box c = (?W div 2 - x * p - tileW div 2, ?H div 2 - y * p - tileH div 2)"
      and isz: "img_size c = (tileW, tileH)"
      by (simp_all add: cf xy sz)
    have inside: "0 \<le> fst (box c) \<and> fst (box c) + fst (img_size c) \<le> ?W \<and>
                  0 \<le> snd (box c) \<and> snd (box c) + snd (img_size c) \<le> ?H"
      if x: "\<bar>x\<bar> \<le> N" and y: "\<bar>y\<bar> \<le> N"
      unfolding bx isz fst_conv snd_conv
      using within_canvas [OF assms(1) x, of tileW] within_canvas [OF assms(1) y, of tileH]
      by (intro conjI)
    show ?thesis
      using bx isz inside by simp
  qed
  show ?thesis
  proof (intro exI conjI)
    show "assemble_image_details listdir size_of base p (tileW, tileH) zoom N = Inr ?out"
      by (rule run)
    show "assembled_image ?out = Some ?cv"
      by simp
    show "canvas_size ?cv = (tileW + 2 * p * N + 6000, tileH + 2 * p * N + 6000)"
      by simp
    show "map img (pastes ?cv) = ?valid"
      by (rule names)
    show "\<forall>c \<in> set (pastes ?cv). \<forall>x y.
               parse_position (img c) = Inr (x, y) \<longrightarrow>
                 img_size c = (tileW, tileH)
               \<and> box c = (fst (canvas_size ?cv) div 2 - x * p - tileW div 2,
                          snd (canvas_size ?cv) div 2 - y * p - tileH div 2)
               \<and> (\<bar>x\<bar> \<le> N \<and> \<bar>y\<bar> \<le> N \<longrightarrow>
                    0 \<le> fst (box c) \<and> fst (box c) + fst (img_size c) \<le> fst (canvas_size ?cv) \<and>
                    0 \<le> snd (box c) \<and> snd (box c) + snd (img_size c) \<le> snd (canvas_size ?cv))"
      using each by blast
  qed
qed

text \<open>
  Claim C5 at a directory with the single tile \<open>screenshot_0_0.png\<close> of size 400 by
  300, pan distance 800 and one ring: the assembler returns with a canvas of 8000 by
  7900 on which that tile is pasted at \<open>(3800, 3800)\<close>.
\<close>

theorem assemble_image_details_within_canvas_witness:
  "\<exists>out cv.
     assemble_image_details [''screenshot_0_0.png''] (\<lambda>_. (400, 300)) ''map'' 800 (400, 300) 13 1
       = Inr out
   \<and> assembled_image out = Some cv
   \<and> canvas_size cv = (8000, 7900)
   \<and> map img (pastes cv) = [''screenshot_0_0.png'']
   \<and> map img_size (pastes cv) = [(400, 300)]
   \<and> map box (pastes cv) = [(3800, 3800)]"
proof -
  have ends: "py_endswith ''screenshot_0_0.png'' ''.png''"
    by code_simp
  have pos: "parse_position ''screenshot_0_0.png'' = Inr (0, 0)"
    by code_simp
  have "\<exists>out cv.
           assemble_image_details [''screenshot_0_0.png''] (\<lambda>_. (400, 300)) ''map'' 800 (400, 300) 13 1
             = Inr out
         \<and> assembled_image out = Some cv
         \<and> canvas_size cv = (400 + 2 * 800 * 1 + 6000, 300 + 2 * 800 * 1 + 6000)
         \<and> map img (pastes cv) =
             filter (\<lambda>f. py_endswith f ''.png'' \<and> \<not> isl (parse_position f))
               (sort [''screenshot_0_0.png''])
         \<and> (\<forall>c \<in> set (pastes cv). \<forall>x y.
               parse_position (img c) = Inr (x, y) \<longrightarrow>
                 img_size c = (400, 300)
               \<and> box c = (fst (canvas_size cv) div 2 - x * 800 - 400 div 2,
                          snd (canvas_size cv) div 2 - y * 800 - 300 div 2)
               \<and> (\<bar>x\<bar> \<le> 1 \<and> \<bar>y\<bar> \<le> 1 \<longrightarrow>
                    0 \<le> fst (box c) \<and> fst (box c) + fst (img_size c) \<le> fst (canvas_size cv) \<and>
                    0 \<le> snd (box c) \<and> snd (box c) + snd (img_size c) \<le> snd (canvas_size cv)))"
    by (rule assemble_image_details_within_canvas) (simp_all add: ends pos)
  then obtain out cv where
    run: "assemble_image_details [''screenshot_0_0.png''] (\<lambda>_. (400, 300)) ''map'' 800 (400, 300) 13 1
            = Inr out"
    and some: "assembled_image out = Some cv"
    and size: "canvas_size cv = (8000, 7900)"
    and names: "map img (pastes cv) = [''screenshot_0_0.png'']"
    and each: "\<forall>c \<in> set (pastes cv). \<forall>x y.
               parse_position (img c) = Inr (x, y) \<longrightarrow>
                 img_size c = (400, 300)
               \<and> box c = (fst (canvas_size cv) div 2 - x * 800 - 400 div 2,
                          snd (canvas_size cv) div 2 - y * 800 - 300 div 2)"
    by (auto simp: ends pos)
  from names obtain c where one: "pastes cv = [c]" and c: "img c = ''screenshot_0_0.png''"
    by (cases "pastes cv") auto
  from each one c pos have "img_size c = (400, 300)"
    and "box c = (fst (canvas_size cv) div 2 - 0 * 800 - 400 div 2,
                  snd (canvas_size cv) div 2 - 0 * 800 - 300 div 2)"
    by simp_all
  then have sizes: "map img_size (pastes cv) = [(400, 300)]"
    and boxes: "map box (pastes cv) = [(3800, 3800)]"
    by (simp_all add: one size)
  show ?thesis
    by (rule exI [of _ out], rule exI [of _ cv]) (intro conjI run some size names sizes boxes)
qed

text \<open>
  Claim C6: when no file name yields a position the assembler is to report that there
  is nothing to assemble and return. It does whenever every \<open>.png\<close> name is rejected
  with \<open>ValueError\<close> (\<open>assemble_image_details_nothing\<close>). A directory whose only
  file is \<open>map.png\<close> yields no position either, but \<open>parts[1]\<close> raises
  \<open>IndexError\<close>, which the \<open>except ValueError\<close> clause does not catch: the
  function is left by the exception and reports nothing.
\<close>

theorem assemble_image_details_unparsable_only:
  "assemble_image_details [''map.png''] (\<lambda>_. (400, 300)) ''map'' 800 (400, 300) 13 1
     = Inl IndexError"
  by code_simp

text \<open>
  Claim C7: a file name that does not match the pattern is to be skipped with a
  warning while the other tiles are assembled. A name whose fields are not integers is
  (\<open>collect_skips_invalid\<close>). A name with fewer than three fields raises
  \<open>IndexError\<close> (\<open>collect_aborts\<close>): with \<open>map.png\<close> beside the valid tile
  \<open>screenshot_0_0.png\<close> the whole assembly is aborted and nothing is pasted.
\<close>

theorem assemble_image_details_short_filename:
  "assemble_image_details [''map.png'', ''screenshot_0_0.png''] (\<lambda>_. (400, 300)) ''map'' 800
     (400, 300) 13 1 = Inl IndexError"
  by code_simp

end
